theory Spec2Isabelle
  imports Complex_Main "HOL-Library.Multiset"
begin

section \<open>The client table and the values of a request\<close>

text \<open>
  The server (\<^verbatim>\<open>src/server.js\<close>) keeps its clients in one SQLite table and serves
  \<^verbatim>\<open>PUT /api/v1/clients/:id\<close>, which moves a client to another swimlane (status) and/or
  another rank (priority) and renumbers the clients around it. The handler is modelled
  as a function from the request and the table to the response and the new table.

  A JavaScript number is a double: a numeric value or \<open>NaN\<close>. The handler only compares
  numbers, takes minima and maxima and adds one to an array index, all of which are
  exact on doubles, so the numeric values are modelled by exact numbers: \<open>int\<close> for the
  result of \<^verbatim>\<open>parseInt\<close>, \<open>real\<close> for a priority. The two infinities (which JSON text
  such as \<^verbatim>\<open>1e999\<close> parses to) are left out.
\<close>

datatype 'a jsnumber = NaN | Num 'a

fun Number_isNaN :: "'a jsnumber \<Rightarrow> bool" where
  "Number_isNaN NaN = True"
| "Number_isNaN (Num _) = False"

text \<open>\<^verbatim>\<open>Math.min\<close> and \<^verbatim>\<open>Math.max\<close>: \<open>NaN\<close> if an argument is \<open>NaN\<close>.\<close>

fun Math_min :: "real jsnumber \<Rightarrow> real jsnumber \<Rightarrow> real jsnumber" where
  "Math_min (Num a) (Num b) = Num (min a b)"
| "Math_min _ _ = NaN"

fun Math_max :: "real jsnumber \<Rightarrow> real jsnumber \<Rightarrow> real jsnumber" where
  "Math_max (Num a) (Num b) = Num (max a b)"
| "Math_max _ _ = NaN"

text \<open>
  A row of the table \<^verbatim>\<open>clients\<close>. The handler reads and writes the columns \<^verbatim>\<open>id\<close>,
  \<^verbatim>\<open>status\<close> and \<^verbatim>\<open>priority\<close>; every other column (name, description, ...) is the
  extension part of the record, so the theorems hold whatever those columns are. The
  column \<^verbatim>\<open>id\<close> is written \<open>id'\<close>, since \<open>id\<close> is the identity function of HOL.
  The table is the list of its rows, in the order \<^verbatim>\<open>select * from clients\<close> returns
  them.

  An id is an integer that the driver hands to JavaScript as it is stored, which holds
  up to 2^53 in magnitude. Beyond that the id read on line 125 is the nearest double
  while the lookups \<^verbatim>\<open>where id = ?\<close> compare with the stored integer; tables with such ids
  are outside the model.
\<close>

record client =
  id' :: int
  status :: string
  priority :: real

type_synonym 'a clients = "'a client_scheme list"

text \<open>The message object of an error response: \<^verbatim>\<open>message\<close> and \<^verbatim>\<open>long_message\<close>.\<close>

datatype message = Message string string

datatype 'a body = MessageBody "message option" | ClientsBody "'a clients"

datatype 'a response = Response nat "'a body"

text \<open>The exceptions the handler can end with.\<close>

datatype exn = TypeError | HeadersSent

text \<open>
  What a run of the handler leaves behind: the response the caller received (the first
  one sent), the exception that ended the run, if any, and the table.
\<close>

datatype 'a result = Result (sent: "'a response option") (raised: "exn option") (store: "'a clients")

section \<open>The statements run on the table\<close>

text \<open>\<^verbatim>\<open>select * from clients where id = ? limit 1\<close>, \<^verbatim>\<open>.get(id)\<close>.\<close>

definition db_get :: "int jsnumber \<Rightarrow> 'a clients \<Rightarrow> 'a client_scheme option" where
  "db_get i db = find (\<lambda>c. Num (id' c) = i) db"

text \<open>\<^verbatim>\<open>select * from clients\<close>, \<^verbatim>\<open>.all()\<close>.\<close>

definition db_all :: "'a clients \<Rightarrow> 'a clients" where
  "db_all db = db"

text \<open>\<^verbatim>\<open>update clients set priority = ? where id = ?\<close>, \<^verbatim>\<open>.run(p, c.id)\<close>.\<close>

definition db_update_priority :: "real \<Rightarrow> int \<Rightarrow> 'a clients \<Rightarrow> 'a clients" where
  "db_update_priority p i db = map (\<lambda>c. if id' c = i then c\<lparr>priority := p\<rparr> else c) db"

text \<open>\<^verbatim>\<open>update clients set status = ?, priority = ? where id = ?\<close>, \<^verbatim>\<open>.run(s, p, id)\<close>.\<close>

definition db_update_status_priority ::
    "string \<Rightarrow> real \<Rightarrow> int jsnumber \<Rightarrow> 'a clients \<Rightarrow> 'a clients" where
  "db_update_status_priority s p i db =
     map (\<lambda>c. if Num (id' c) = i then c\<lparr>status := s, priority := p\<rparr> else c) db"

section \<open>The validators\<close>

record validation =
  valid :: bool
  messageObj :: "message option"

definition validateId :: "int jsnumber \<Rightarrow> 'a clients \<Rightarrow> validation" where
  "validateId i db =
     (if Number_isNaN i then
        \<lparr>valid = False,
         messageObj = Some (Message ''Invalid id provided.'' ''Id can only be integer.'')\<rparr>
      else case db_get i db of
        None \<Rightarrow>
          \<lparr>valid = False,
           messageObj = Some (Message ''Invalid id provided.'' ''Cannot find client with that id.'')\<rparr>
      | Some client \<Rightarrow> \<lparr>valid = True, messageObj = None\<rparr>)"

definition validatePriority :: "real jsnumber \<Rightarrow> validation" where
  "validatePriority p =
     (if Number_isNaN p then
        \<lparr>valid = False,
         messageObj = Some (Message ''Invalid priority provided.''
                                    ''Priority can only be positive integer.'')\<rparr>
      else \<lparr>valid = True, messageObj = None\<rparr>)"

section \<open>The handler of PUT /api/v1/clients/:id\<close>

text \<open>
  \<^verbatim>\<open>res.status(code).send(body)\<close>: the first call sends the response; a call after a
  response has been sent throws (the headers are sent already) and the caller keeps the
  first response.
\<close>

definition send :: "nat \<Rightarrow> 'a body \<Rightarrow> 'a response option \<Rightarrow> 'a clients \<Rightarrow> 'a result" where
  "send code b sent0 db =
     (case sent0 of
        None \<Rightarrow> Result (Some (Response code b)) None db
      | Some r \<Rightarrow> Result (Some r) (Some HeadersSent) db)"

text \<open>\<^verbatim>\<open>cs.forEach((c, idx) => ...)\<close> with a body that writes to the table.\<close>

fun forEach :: "('c \<Rightarrow> nat \<Rightarrow> 's \<Rightarrow> 's) \<Rightarrow> 'c list \<Rightarrow> nat \<Rightarrow> 's \<Rightarrow> 's" where
  "forEach f [] idx s = s"
| "forEach f (c # cs) idx s = forEach f cs (Suc idx) (f c idx s)"

text \<open>
  Lines 155 to 162: the clients left behind in the old swimlane, sorted by priority
  (\<^verbatim>\<open>Array.prototype.sort\<close> is stable, as \<open>sort_key\<close> is), get the priorities 1, 2, ...
\<close>

definition oldClients :: "int jsnumber \<Rightarrow> 'a client_scheme \<Rightarrow> 'a clients \<Rightarrow> 'a clients" where
  "oldClients i client clients =
     filter (\<lambda>c. status c = status client \<and> Num (id' c) \<noteq> i) clients"

definition remove_from_old ::
    "int jsnumber \<Rightarrow> 'a client_scheme \<Rightarrow> 'a clients \<Rightarrow> 'a clients \<Rightarrow> 'a clients" where
  "remove_from_old i client clients db =
     forEach (\<lambda>c idx. db_update_priority (real (idx + 1)) (id' c))
       (sort_key priority (oldClients i client clients)) 0 db"

text \<open>Line 140: the clients of the target swimlane, the moved client apart.\<close>

definition targetClients :: "int jsnumber \<Rightarrow> string \<Rightarrow> 'a clients \<Rightarrow> 'a clients" where
  "targetClients i newStatus clients =
     filter (\<lambda>c. status c = newStatus \<and> Num (id' c) \<noteq> i) clients"

text \<open>
  Lines 164 to 170: the clients of the target swimlane, sorted by priority, get the
  priorities 1, 2, ... with \<open>newPriority\<close> skipped.
\<close>

definition shifted :: "real \<Rightarrow> nat \<Rightarrow> real" where
  "shifted newPriority idx =
     (let p = real (idx + 1) in if p \<ge> newPriority then p + 1 else p)"

definition insert_into_new :: "real \<Rightarrow> 'a clients \<Rightarrow> 'a clients \<Rightarrow> 'a clients" where
  "insert_into_new newPriority targets db =
     forEach (\<lambda>c idx. db_update_priority (shifted newPriority idx) (id' c))
       (sort_key priority targets) 0 db"

text \<open>
  Lines 164 to 173: the insertion into the target swimlane and the write of the moved
  client itself.
\<close>

definition insert_and_place ::
    "int jsnumber \<Rightarrow> string \<Rightarrow> real \<Rightarrow> 'a clients \<Rightarrow> 'a clients \<Rightarrow> 'a clients" where
  "insert_and_place i newStatus newPriority clients db =
     db_update_status_priority newStatus newPriority i
       (insert_into_new newPriority (targetClients i newStatus clients) db)"

text \<open>
  Lines 155 to 173: the writes, once \<open>newStatus\<close> and \<open>newPriority\<close> are known.
  \<open>clients\<close> is the snapshot read on line 125, \<open>db\<close> the table being written.
\<close>

definition reorder ::
    "int jsnumber \<Rightarrow> 'a client_scheme \<Rightarrow> string \<Rightarrow> real \<Rightarrow> 'a clients \<Rightarrow> 'a clients \<Rightarrow> 'a clients" where
  "reorder i client newStatus newPriority clients db =
     (let statusChanged = (newStatus \<noteq> status client);
          db1 = (if statusChanged then remove_from_old i client clients db else db)
      in insert_and_place i newStatus newPriority clients db1)"

text \<open>
  Line 149: \<^verbatim>\<open>Math.max(1, Math.min(priority, targetClients.length + 1))\<close>.
\<close>

definition clamped :: "real jsnumber \<Rightarrow> nat \<Rightarrow> real jsnumber" where
  "clamped p len = Math_max (Num 1) (Math_min p (Num (real (len + 1))))"

text \<open>
  The handler, from line 118 on; \<open>i\<close> is \<^verbatim>\<open>parseInt(req.params.id, 10)\<close>, an integer or
  \<open>NaN\<close>; \<open>status_opt\<close> and \<open>priority_opt\<close> are the fields \<^verbatim>\<open>status\<close> and \<^verbatim>\<open>priority\<close>
  of the request body, \<open>None\<close> when \<^verbatim>\<open>undefined\<close>. A status is a string and a priority is a
  number, as the interface of the specification has them; other JSON values (null,
  a priority given as a string, ...) are not modelled.

  The branch that answers an invalid id has no \<^verbatim>\<open>return\<close>: the run goes on with the
  response sent. When \<^verbatim>\<open>clients.find\<close> gives \<^verbatim>\<open>undefined\<close>, reading \<^verbatim>\<open>client.status\<close>
  (line 135 or 137) throws a TypeError. On the tables of the model, \<^verbatim>\<open>clients.find\<close>
  finds a client exactly when the lookup of \<open>validateId\<close> does.

  After \<open>validatePriority\<close> has accepted the priority, the clamped value is a number:
  the case \<open>NaN\<close> of the \<open>case\<close> on the clamped value is there to make the function
  total and is never taken (lemma \<open>clamped_after_validation\<close>).
\<close>

definition put_client ::
    "int jsnumber \<Rightarrow> string option \<Rightarrow> real jsnumber option \<Rightarrow> 'a clients \<Rightarrow> 'a result" where
  "put_client i status_opt priority_opt db =
     (let v = validateId i db;
          sent0 = (if \<not> valid v then Some (Response 400 (MessageBody (messageObj v))) else None);
          clients = db_all db
      in if status_opt = None \<and> priority_opt = None then send 200 (ClientsBody clients) sent0 db
         else case find (\<lambda>client. Num (id' client) = i) clients of
           None \<Rightarrow> Result sent0 (Some TypeError) db
         | Some client \<Rightarrow>
             (let newStatus = (case status_opt of Some s \<Rightarrow> s | None \<Rightarrow> status client);
                  statusChanged = (newStatus \<noteq> status client);
                  targets = targetClients i newStatus clients
              in case priority_opt of
                   Some p \<Rightarrow>
                     (let vp = validatePriority p
                      in if \<not> valid vp then send 400 (MessageBody (messageObj vp)) sent0 db
                         else case clamped p (length targets) of
                           Num newPriority \<Rightarrow>
                             (let db' = reorder i client newStatus newPriority clients db
                              in send 200 (ClientsBody (db_all db')) sent0 db')
                         | NaN \<Rightarrow> send 400 (MessageBody (messageObj vp)) sent0 db)
                 | None \<Rightarrow>
                     (let newPriority =
                            (if statusChanged then real (length targets + 1) else priority client);
                          db' = reorder i client newStatus newPriority clients db
                      in send 200 (ClientsBody (db_all db')) sent0 db')))"

section \<open>Swimlanes, the dense ranking and well-formed requests\<close>

definition lane :: "string \<Rightarrow> 'a clients \<Rightarrow> 'a clients" where
  "lane s db = filter (\<lambda>c. status c = s) db"

text \<open>The priorities of the clients \<open>cs\<close> are exactly 1, ..., n, each once (n their number).\<close>

definition dense_ranks :: "'a clients \<Rightarrow> bool" where
  "dense_ranks cs = (sort (map priority cs) = map real [1..<Suc (length cs)])"

definition dense_unique :: "string \<Rightarrow> 'a clients \<Rightarrow> bool" where
  "dense_unique s db = dense_ranks (lane s db)"

definition swimlane_invariant :: "'a clients \<Rightarrow> bool" where
  "swimlane_invariant db = (\<forall>s \<in> set (map status db). dense_unique s db)"

text \<open>The statuses the API documents (and the GET handler checks on line 76).\<close>

definition status_enumeration :: "string list" where
  "status_enumeration = [''backlog'', ''in-progress'', ''complete'']"

fun positive_integer :: "real jsnumber \<Rightarrow> bool" where
  "positive_integer NaN = False"
| "positive_integer (Num r) = (0 < r \<and> of_int \<lfloor>r\<rfloor> = r)"

text \<open>
  A well-formed move request: the id is that of a client of the table, the status is
  absent or one of the enumeration, the priority is absent or a positive integer.
\<close>

definition well_formed_request ::
    "int jsnumber \<Rightarrow> string option \<Rightarrow> real jsnumber option \<Rightarrow> 'a clients \<Rightarrow> bool" where
  "well_formed_request i status_opt priority_opt db =
     ((\<exists>c \<in> set db. Num (id' c) = i) \<and>
      (case status_opt of None \<Rightarrow> True | Some s \<Rightarrow> s \<in> set status_enumeration) \<and>
      (case priority_opt of None \<Rightarrow> True | Some p \<Rightarrow> positive_integer p))"

text \<open>
  The other formulation of the insertion, in the words of the specification: every
  member of the target swimlane (the moved client apart) whose rank is at least the
  effective priority moves up by one, then the moved client is placed at the effective
  priority.
\<close>

definition shift_up :: "int jsnumber \<Rightarrow> string \<Rightarrow> real \<Rightarrow> 'a clients \<Rightarrow> 'a clients" where
  "shift_up i newStatus effectivePriority db =
     map (\<lambda>c. if status c = newStatus \<and> Num (id' c) \<noteq> i \<and> priority c \<ge> effectivePriority
              then c\<lparr>priority := priority c + 1\<rparr> else c) db"

definition shift_and_place ::
    "int jsnumber \<Rightarrow> string \<Rightarrow> real \<Rightarrow> 'a clients \<Rightarrow> 'a clients" where
  "shift_and_place i newStatus effectivePriority db =
     map (\<lambda>c. if Num (id' c) = i then c\<lparr>status := newStatus, priority := effectivePriority\<rparr> else c)
       (shift_up i newStatus effectivePriority db)"

text \<open>The four clients of the scenarios of the specification.\<close>

definition client_A :: client where
  "client_A = \<lparr>id' = 1, status = ''backlog'', priority = 1\<rparr>"

definition client_B :: client where
  "client_B = \<lparr>id' = 2, status = ''backlog'', priority = 2\<rparr>"

definition client_C :: client where
  "client_C = \<lparr>id' = 3, status = ''backlog'', priority = 3\<rparr>"

definition client_D :: client where
  "client_D = \<lparr>id' = 4, status = ''in-progress'', priority = 1\<rparr>"

definition board :: "client list" where
  "board = [client_A, client_B, client_C, client_D]"

text \<open>A client of a third swimlane.\<close>

definition client_E :: client where
  "client_E = \<lparr>id' = 5, status = ''complete'', priority = 1\<rparr>"

section \<open>The writes, row by row\<close>

text \<open>
  A list of assignments (id, priority) applied to a row and to the table; the two loops
  of the handler are such lists.
\<close>

definition assign1 :: "(int \<times> real) list \<Rightarrow> 'a client_scheme \<Rightarrow> 'a client_scheme" where
  "assign1 al x = (case map_of al (id' x) of None \<Rightarrow> x | Some p \<Rightarrow> x\<lparr>priority := p\<rparr>)"

definition assign :: "(int \<times> real) list \<Rightarrow> 'a clients \<Rightarrow> 'a clients" where
  "assign al db = map (assign1 al) db"

definition old_assignments ::
    "int jsnumber \<Rightarrow> 'a client_scheme \<Rightarrow> string \<Rightarrow> 'a clients \<Rightarrow> (int \<times> real) list" where
  "old_assignments i client newStatus db =
     (if newStatus \<noteq> status client
      then (let cs = sort_key priority (oldClients i client db)
            in zip (map id' cs) (map (\<lambda>idx. real (idx + 1)) [0..<length cs]))
      else [])"

definition new_assignments ::
    "int jsnumber \<Rightarrow> string \<Rightarrow> real \<Rightarrow> 'a clients \<Rightarrow> (int \<times> real) list" where
  "new_assignments i newStatus newPriority db =
     (let cs = sort_key priority (targetClients i newStatus db)
      in zip (map id' cs) (map (shifted newPriority) [0..<length cs]))"

definition upd1 :: "string \<Rightarrow> real \<Rightarrow> int jsnumber \<Rightarrow> 'a client_scheme \<Rightarrow> 'a client_scheme" where
  "upd1 s p i x = (if Num (id' x) = i then x\<lparr>status := s, priority := p\<rparr> else x)"

definition row_after ::
    "int jsnumber \<Rightarrow> 'a client_scheme \<Rightarrow> string \<Rightarrow> real \<Rightarrow> 'a clients \<Rightarrow>
     'a client_scheme \<Rightarrow> 'a client_scheme" where
  "row_after i client newStatus newPriority db x =
     upd1 newStatus newPriority i
       (assign1 (new_assignments i newStatus newPriority db)
         (assign1 (old_assignments i client newStatus db) x))"

section \<open>Loops as lists of assignments\<close>

lemma assign1_id [simp]: "id' (assign1 al x) = id' x"
  by (simp add: assign1_def split: option.split)

lemma assign1_status [simp]: "status (assign1 al x) = status x"
  by (simp add: assign1_def split: option.split)

lemma assign1_Nil [simp]: "assign1 [] x = x"
  by (simp add: assign1_def)

lemma assign_Nil [simp]: "assign [] db = db"
  by (induction db) (simp_all add: assign_def)

lemma assign1_None: "map_of al (id' x) = None \<Longrightarrow> assign1 al x = x"
  by (simp add: assign1_def)

lemma assign1_Some: "map_of al (id' x) = Some p \<Longrightarrow> assign1 al x = x\<lparr>priority := p\<rparr>"
  by (simp add: assign1_def)

lemma map_of_zip_fresh:
  "k \<notin> set ks \<Longrightarrow> map_of (zip ks vs) k = None"
  by (auto simp: map_of_eq_None_iff dest: set_zip_leftD)

lemma forEach_assign:
  "distinct (map id' cs) \<Longrightarrow>
   forEach (\<lambda>c idx. db_update_priority (g idx) (id' c)) cs k db =
   assign (zip (map id' cs) (map g [k..<k + length cs])) db"
proof (induction cs arbitrary: k db)
  case Nil
  then show ?case by simp
next
  case (Cons c cs)
  define vs where "vs = map g [Suc k..<Suc k + length cs]"
  have fresh: "map_of (zip (map id' cs) vs) (id' c) = None"
    using Cons.prems by (intro map_of_zip_fresh) simp
  have upt: "map g [k..<k + length (c # cs)] = g k # vs"
    unfolding vs_def by (subst upt_rec) simp
  from Cons.prems have "distinct (map id' cs)" by simp
  note IH = Cons.IH[OF this, of "Suc k", folded vs_def]
  have "forEach (\<lambda>c idx. db_update_priority (g idx) (id' c)) (c # cs) k db =
      assign (zip (map id' cs) vs) (db_update_priority (g k) (id' c) db)"
    by (simp add: IH)
  also have "\<dots> = assign ((id' c, g k) # zip (map id' cs) vs) db"
    using fresh by (simp add: assign_def assign1_def db_update_priority_def)
  finally show ?case
    unfolding upt by simp
qed

lemma sorted_map_real_upt: "sorted (map real [m..<n])"
  by (simp add: sorted_map sorted_wrt_mono_rel[OF _ sorted_wrt_upt])

lemma shifted_mset:
  "1 \<le> m \<Longrightarrow> m \<le> Suc n \<Longrightarrow>
   add_mset (real m) (mset (map (shifted (real m)) [0..<n])) = mset (map real [1..<Suc (Suc n)])"
proof (induction n)
  case 0
  then show ?case by simp
next
  case (Suc n)
  show ?case
  proof (cases "m \<le> Suc n")
    case True
    with Suc have "add_mset (real m) (mset (map (shifted (real m)) [0..<n])) = mset (map real [1..<Suc (Suc n)])"
      by simp
    moreover have "shifted (real m) n = real (Suc (Suc n))" using True by (simp add: shifted_def)
    ultimately show ?thesis by simp
  next
    case False
    with Suc.prems have m: "m = Suc (Suc n)" by simp
    have "map (shifted (real m)) [0..<Suc n] = map real [1..<Suc (Suc n)]"
      unfolding m by (rule nth_equalityI) (auto simp: shifted_def nth_append simp del: upt_Suc)
    then show ?thesis unfolding m by simp
  qed
qed

lemma distinct_ids_sort_key:
  "distinct (map id' xs) \<Longrightarrow> distinct (map id' (sort_key f xs))"
  using mset_eq_imp_distinct_iff[of "map id' (sort_key f xs)" "map id' xs"] by simp

lemma map_priority_sort_key: "map priority (sort_key priority xs) = sort (map priority xs)"
  by (rule properties_for_sort[symmetric]) (simp_all add: sorted_sort_key)

lemma assign_perm_priorities:
  assumes "distinct (map id' cs)" "length vs = length cs" "mset L = mset cs"
  shows "mset (map priority (assign (zip (map id' cs) vs) L)) = mset vs"
proof -
  let ?al = "zip (map id' cs) vs"
  have key: "map_of ?al (id' (cs ! j)) = Some (vs ! j)" if "j < length cs" for j
    using map_of_zip_nth[of "map id' cs" vs j] assms that by simp
  have "map (\<lambda>x. priority (assign1 ?al x)) cs = vs"
    by (rule nth_equalityI) (simp_all add: assms key assign1_def)
  then have "mset vs = image_mset (\<lambda>x. priority (assign1 ?al x)) (mset cs)"
    by (metis mset_map)
  also have "\<dots> = mset (map priority (assign ?al L))"
    by (simp add: assign_def assms(3)[symmetric] comp_def)
  finally show ?thesis by simp
qed

subsection \<open>Dense rankings as multisets\<close>

lemma dense_unique_iff:
  "dense_unique s db \<longleftrightarrow>
   mset (map priority (lane s db)) = mset (map real [1..<Suc (length (lane s db))])"
  unfolding dense_unique_def dense_ranks_def
  by (metis mset_sort properties_for_sort sorted_map_real_upt)

lemma dense_uniqueI:
  assumes "mset (map priority (lane s db)) = mset (map real [1..<Suc n])"
  shows "dense_unique s db"
proof -
  from assms have "size (mset (map priority (lane s db))) = size (mset (map real [1..<Suc n]))"
    by simp
  then have "length (lane s db) = n" by simp
  with assms show ?thesis by (simp add: dense_unique_iff)
qed

lemma map_of_zip_other:
  assumes "distinct (map id' db)" "set cs \<subseteq> set db" "x \<in> set db" "x \<notin> set cs"
  shows "map_of (zip (map id' cs) vs) (id' x) = None"
proof (rule map_of_zip_fresh)
  from assms(1) have "inj_on id' (set db)" by (simp add: distinct_map)
  with assms(2-4) show "id' x \<notin> set (map id' cs)"
    by (auto dest: inj_onD)
qed

lemma filter_id_single:
  assumes "distinct (map id' db)" "c \<in> set db"
  shows "filter (\<lambda>x. id' x = id' c) db = [c]"
  using assms
proof (induction db)
  case Nil
  then show ?case by simp
next
  case (Cons a db)
  show ?case
  proof (cases "a = c")
    case True
    from Cons.prems True have "id' c \<notin> id' ` set db" by simp
    then have "filter (\<lambda>x. id' x = id' c) db = []"
      unfolding filter_empty_conv by (metis imageI)
    with True show ?thesis by simp
  next
    case False
    with Cons show ?thesis by auto
  qed
qed

lemma mset_map_filter_disj:
  "mset (map h (filter (\<lambda>x. P x \<or> Q x) xs)) =
   mset (map h (filter P xs)) + mset (map h (filter (\<lambda>x. \<not> P x \<and> Q x) xs))"
  by (induction xs) auto

lemma reorder_assign:
  assumes "distinct (map id' db)"
  shows "reorder i client newStatus newPriority db db =
     db_update_status_priority newStatus newPriority i
       (assign (new_assignments i newStatus newPriority db)
         (assign (old_assignments i client newStatus db) db))"
proof -
  have dO: "distinct (map id' (sort_key priority (oldClients i client db)))"
    using assms by (simp add: distinct_ids_sort_key oldClients_def distinct_map_filter)
  have dT: "distinct (map id' (sort_key priority (targetClients i newStatus db)))"
    using assms by (simp add: distinct_ids_sort_key targetClients_def distinct_map_filter)
  note eqO = forEach_assign[OF dO, of "\<lambda>idx. real (idx + 1)" 0 db]
  note eqT = forEach_assign[OF dT, of "shifted newPriority" 0]
  show ?thesis
  proof (cases "newStatus \<noteq> status client")
    case True
    then show ?thesis
      unfolding reorder_def insert_and_place_def remove_from_old_def insert_into_new_def old_assignments_def
        new_assignments_def Let_def eqO eqT
      by simp
  next
    case False
    then show ?thesis
      unfolding reorder_def insert_and_place_def remove_from_old_def insert_into_new_def old_assignments_def
        new_assignments_def Let_def eqT
      by simp
  qed
qed

subsection \<open>What the writes do to one row\<close>

lemma reorder_rows:
  "distinct (map id' db) \<Longrightarrow>
   reorder i client newStatus newPriority db db = map (row_after i client newStatus newPriority db) db"
  by (simp add: reorder_assign assign_def db_update_status_priority_def row_after_def upd1_def)

lemma row_after_id [simp]: "id' (row_after i client ns np db x) = id' x"
  by (simp add: row_after_def upd1_def)

lemma row_after_status:
  "status (row_after i client ns np db x) = (if Num (id' x) = i then ns else status x)"
  by (simp add: row_after_def upd1_def)

lemma row_after_target:
  "Num (id' x) = i \<Longrightarrow> priority (row_after i client ns np db x) = np"
  by (simp add: row_after_def upd1_def)

lemma set_old_sorted:
  "set (oldClients i client db) = {x \<in> set db. status x = status client \<and> Num (id' x) \<noteq> i}"
  by (auto simp: oldClients_def)

lemma set_target_sorted:
  "set (targetClients i ns db) = {x \<in> set db. status x = ns \<and> Num (id' x) \<noteq> i}"
  by (auto simp: targetClients_def)

lemma old_assignments_other:
  assumes "distinct (map id' db)" "x \<in> set db" "status x \<noteq> status client \<or> Num (id' x) = i"
  shows "map_of (old_assignments i client ns db) (id' x) = None"
proof (cases "ns \<noteq> status client")
  case True
  have "x \<notin> set (sort_key priority (oldClients i client db))"
    using assms(3) by (auto simp: set_old_sorted)
  moreover have "set (sort_key priority (oldClients i client db)) \<subseteq> set db"
    by (auto simp: set_old_sorted)
  ultimately have "map_of (zip (map id' (sort_key priority (oldClients i client db))) vs) (id' x) = None"
    for vs
    using assms(1,2) by (intro map_of_zip_other)
  then show ?thesis
    unfolding old_assignments_def Let_def if_P[OF True] .
next
  case False
  then show ?thesis by (simp add: old_assignments_def)
qed

lemma new_assignments_other:
  assumes "distinct (map id' db)" "x \<in> set db" "status x \<noteq> ns \<or> Num (id' x) = i"
  shows "map_of (new_assignments i ns np db) (id' x) = None"
proof -
  have "x \<notin> set (sort_key priority (targetClients i ns db))"
    using assms(3) by (auto simp: set_target_sorted)
  moreover have "set (sort_key priority (targetClients i ns db)) \<subseteq> set db"
    by (auto simp: set_target_sorted)
  ultimately have "map_of (zip (map id' (sort_key priority (targetClients i ns db))) vs) (id' x) = None"
    for vs
    using assms(1,2) by (intro map_of_zip_other)
  then show ?thesis
    unfolding new_assignments_def Let_def .
qed

text \<open>A row of neither swimlane, other than the moved client, is written back as it was.\<close>
lemma row_after_other:
  assumes "distinct (map id' db)" "x \<in> set db" "Num (id' x) \<noteq> i"
    "status x \<noteq> ns" "status x \<noteq> status client"
  shows "row_after i client ns np db x = x"
  using assms
  by (simp add: row_after_def upd1_def assign1_None old_assignments_other new_assignments_other)

lemma row_after_in_target:
  assumes "distinct (map id' db)" "x \<in> set db" "Num (id' x) \<noteq> i" "status x = ns"
    "ns \<noteq> status client \<or> True"
  shows "row_after i client ns np db x = assign1 (new_assignments i ns np db) x"
proof (cases "ns = status client")
  case True
  then show ?thesis using assms by (simp add: row_after_def upd1_def old_assignments_def)
next
  case False
  with assms have "map_of (old_assignments i client ns db) (id' x) = None"
    by (intro old_assignments_other) auto
  then show ?thesis using assms by (simp add: row_after_def upd1_def assign1_None)
qed

lemma row_after_in_old:
  assumes "distinct (map id' db)" "x \<in> set db" "Num (id' x) \<noteq> i" "status x = status client"
    "ns \<noteq> status client"
  shows "row_after i client ns np db x = assign1 (old_assignments i client ns db) x"
proof -
  from assms have "map_of (new_assignments i ns np db) (id' x) = None"
    by (intro new_assignments_other) auto
  then show ?thesis using assms by (simp add: row_after_def upd1_def assign1_None)
qed

subsection \<open>The swimlanes after the writes\<close>

lemma same_id_same_row:
  assumes "distinct (map id' db)" "x \<in> set db" "c \<in> set db" "id' x = id' c"
  shows "x = c"
  using assms by (meson distinct_map inj_onD)

lemma lane_rows:
  "map priority (lane s (map f db)) = map (\<lambda>x. priority (f x)) (filter (\<lambda>x. status (f x) = s) db)"
  by (simp add: lane_def filter_map comp_def)

lemma map_Suc_real_upt: "map (\<lambda>idx. real (idx + 1)) [0..<n] = map real [1..<Suc n]"
  by (rule nth_equalityI) (auto simp del: upt_Suc)

lemma new_lane_priorities:
  assumes D: "distinct (map id' db)" and C: "c \<in> set db" "Num (id' c) = i"
  shows "mset (map priority (lane ns (reorder i client ns np db db))) =
         add_mset np (mset (map (shifted np) [0..<length (targetClients i ns db)]))"
proof -
  let ?f = "row_after i client ns np db"
  let ?h = "\<lambda>x. priority (?f x)"
  let ?T = "targetClients i ns db"
  let ?S = "sort_key priority ?T"
  have P: "filter (\<lambda>x. Num (id' x) = i) db = [c]"
    using filter_id_single[OF D C(1)] C(2) by auto
  have Q: "filter (\<lambda>x. Num (id' x) \<noteq> i \<and> status x = ns) db = ?T"
    unfolding targetClients_def by (rule filter_cong) auto
  have "filter (\<lambda>x. status (?f x) = ns) db = filter (\<lambda>x. Num (id' x) = i \<or> status x = ns) db"
    by (rule filter_cong) (auto simp: row_after_status)
  then have "mset (map priority (lane ns (map ?f db))) =
      mset (map ?h [c]) + mset (map ?h ?T)"
    unfolding lane_rows by (simp only: mset_map_filter_disj P Q)
  moreover have "?h c = np"
    using C(2) by (simp add: row_after_target)
  moreover have "map ?h ?T = map priority (assign (new_assignments i ns np db) ?T)"
    unfolding assign_def map_map comp_def
  proof (rule map_cong[OF refl])
    fix x assume "x \<in> set ?T"
    then have "x \<in> set db" "Num (id' x) \<noteq> i" "status x = ns"
      by (auto simp: set_target_sorted)
    then show "priority (?f x) = priority (assign1 (new_assignments i ns np db) x)"
      using row_after_in_target[OF D] by simp
  qed
  moreover have "mset (map priority (assign (new_assignments i ns np db) ?T)) =
      mset (map (shifted np) [0..<length ?T])"
  proof -
    have "distinct (map id' ?S)"
      using D by (simp add: distinct_ids_sort_key targetClients_def distinct_map_filter)
    from assign_perm_priorities[OF this, of "map (shifted np) [0..<length ?S]" ?T]
    show ?thesis by (simp add: new_assignments_def Let_def)
  qed
  ultimately show ?thesis
    by (simp add: reorder_rows[OF D])
qed

lemma old_lane_priorities:
  assumes D: "distinct (map id' db)" and C: "c \<in> set db" "Num (id' c) = i"
    and changed: "ns \<noteq> status c"
  shows "mset (map priority (lane (status c) (reorder i c ns np db db))) =
         mset (map real [1..<Suc (length (oldClients i c db))])"
proof -
  let ?f = "row_after i c ns np db"
  let ?h = "\<lambda>x. priority (?f x)"
  let ?O = "oldClients i c db"
  let ?S = "sort_key priority ?O"
  have "filter (\<lambda>x. status (?f x) = status c) db = ?O"
    unfolding oldClients_def using changed by (intro filter_cong) (auto simp: row_after_status)
  then have "mset (map priority (lane (status c) (map ?f db))) = mset (map ?h ?O)"
    unfolding lane_rows by simp
  moreover have "map ?h ?O = map priority (assign (old_assignments i c ns db) ?O)"
    unfolding assign_def map_map comp_def
  proof (rule map_cong[OF refl])
    fix x assume "x \<in> set ?O"
    then have "x \<in> set db" "Num (id' x) \<noteq> i" "status x = status c"
      by (auto simp: set_old_sorted)
    then show "priority (?f x) = priority (assign1 (old_assignments i c ns db) x)"
      using row_after_in_old[OF D _ _ _ changed] by simp
  qed
  moreover have "mset (map priority (assign (old_assignments i c ns db) ?O)) =
      mset (map real [1..<Suc (length ?O)])"
  proof -
    have "distinct (map id' ?S)"
      using D by (simp add: distinct_ids_sort_key oldClients_def distinct_map_filter)
    moreover have "length (map real [1..<Suc (length ?O)]) = length ?S" by (simp del: upt_Suc)
    moreover have "mset ?O = mset ?S" by simp
    ultimately have "mset (map priority (assign (zip (map id' ?S) (map real [1..<Suc (length ?O)])) ?O)) =
        mset (map real [1..<Suc (length ?O)])"
      by (rule assign_perm_priorities)
    moreover have "old_assignments i c ns db = zip (map id' ?S) (map real [1..<Suc (length ?O)])"
      unfolding old_assignments_def Let_def if_P[OF changed] map_Suc_real_upt length_sort ..
    ultimately show ?thesis by (simp only:)
  qed
  ultimately show ?thesis
    by (simp add: reorder_rows[OF D])
qed

lemma other_lane_unchanged:
  assumes D: "distinct (map id' db)" and C: "c \<in> set db" "Num (id' c) = i"
    and s: "s \<noteq> ns" "s \<noteq> status c"
  shows "lane s (reorder i c ns np db db) = lane s db"
proof -
  let ?f = "row_after i c ns np db"
  have not_target: "Num (id' x) \<noteq> i" if "x \<in> set db" "status x = s" for x
    using same_id_same_row[OF D that(1) C(1)] that(2) s(2) C(2) by auto
  have "filter (\<lambda>x. status (?f x) = s) db = filter (\<lambda>x. status x = s) db"
    using s by (intro filter_cong) (auto simp: row_after_status dest: not_target)
  then have "lane s (map ?f db) = map ?f (lane s db)"
    by (simp add: lane_def filter_map comp_def)
  also have "\<dots> = lane s db"
  proof (rule map_idI)
    fix x assume "x \<in> set (lane s db)"
    then have x: "x \<in> set db" "status x = s" by (auto simp: lane_def)
    with s not_target show "?f x = x"
      by (intro row_after_other[OF D]) auto
  qed
  finally show ?thesis by (simp add: reorder_rows[OF D])
qed

subsection \<open>The invariant after the writes\<close>

lemma find_target:
  assumes "find (\<lambda>x. Num (id' x) = i) db = Some c"
  shows "c \<in> set db" "Num (id' c) = i"
  using assms by (auto simp: find_Some_iff)

lemma find_target_unique:
  assumes "distinct (map id' db)" "c \<in> set db" "Num (id' c) = i"
  shows "find (\<lambda>x. Num (id' x) = i) db = Some c"
proof (cases "find (\<lambda>x. Num (id' x) = i) db")
  case None
  with assms show ?thesis by (auto simp: find_None_iff)
next
  case (Some d)
  then have "d \<in> set db" "Num (id' d) = i" by (auto simp: find_Some_iff)
  with assms have "d = c" by (auto intro: same_id_same_row)
  with Some show ?thesis by simp
qed

lemma dense_unique_all:
  "swimlane_invariant db \<Longrightarrow> dense_unique s db"
proof (cases "s \<in> set (map status db)")
  case True
  assume "swimlane_invariant db"
  with True show ?thesis by (auto simp: swimlane_invariant_def)
next
  case False
  then have "lane s db = []" by (auto simp: lane_def filter_empty_conv)
  then show ?thesis by (simp add: dense_unique_def dense_ranks_def)
qed

lemma reorder_dense:
  assumes D: "distinct (map id' db)" and C: "c \<in> set db" "Num (id' c) = i"
    and inv: "swimlane_invariant db"
    and m: "1 \<le> m" "m \<le> Suc (length (targetClients i ns db))"
  shows "dense_unique s (reorder i c ns (real m) db db)"
proof -
  consider "s = ns" | "s \<noteq> ns" "s = status c" | "s \<noteq> ns" "s \<noteq> status c" by blast
  then show ?thesis
  proof cases
    case 1
    show ?thesis
      unfolding 1
      by (rule dense_uniqueI) (simp only: new_lane_priorities[OF D C] shifted_mset[OF m])
  next
    case 2
    then have "ns \<noteq> status c" by simp
    from old_lane_priorities[OF D C this] show ?thesis
      unfolding 2(2) by (rule dense_uniqueI)
  next
    case 3
    from other_lane_unchanged[OF D C 3] dense_unique_all[OF inv, of s]
    show ?thesis by (simp add: dense_unique_def)
  qed
qed

text \<open>The swimlane of the moved client is the moved client and the rest of it.\<close>
lemma lane_split:
  assumes D: "distinct (map id' db)" and C: "c \<in> set db" "Num (id' c) = i"
  shows "mset (map priority (lane (status c) db)) =
         add_mset (priority c) (mset (map priority (targetClients i (status c) db)))"
proof -
  have "filter (\<lambda>x. status x = status c) db =
        filter (\<lambda>x. Num (id' x) = i \<or> status x = status c) db"
    using same_id_same_row[OF D _ C(1)] C(2) by (intro filter_cong) auto
  moreover have "filter (\<lambda>x. Num (id' x) = i) db = [c]"
    using filter_id_single[OF D C(1)] C(2) by auto
  moreover have "filter (\<lambda>x. Num (id' x) \<noteq> i \<and> status x = status c) db = targetClients i (status c) db"
    unfolding targetClients_def by (rule filter_cong) auto
  ultimately show ?thesis
    unfolding lane_def by (simp only: mset_map_filter_disj) simp
qed

lemma sorted_shifted: "sorted (map (shifted np) [0..<n])"
proof -
  have "shifted np a \<le> shifted np b" if "a < b" for a b
    using that by (simp add: shifted_def Let_def)
  then show ?thesis
    unfolding sorted_map by (intro sorted_wrt_mono_rel[OF _ sorted_wrt_upt]) auto
qed

text \<open>Under the invariant the moved client has a rank of its swimlane.\<close>
lemma own_rank:
  assumes D: "distinct (map id' db)" and C: "c \<in> set db" "Num (id' c) = i"
    and dense: "dense_unique (status c) db"
  obtains m where "priority c = real m" "1 \<le> m" "m \<le> Suc (length (targetClients i (status c) db))"
proof -
  let ?n = "length (targetClients i (status c) db)"
  from lane_split[OF D C] have "size (mset (map priority (lane (status c) db))) = Suc ?n"
    by simp
  then have len: "length (lane (status c) db) = Suc ?n" by simp
  from dense have "mset (map priority (lane (status c) db)) = mset (map real [1..<Suc (Suc ?n)])"
    by (simp add: dense_unique_iff len)
  with lane_split[OF D C] have "priority c \<in># mset (map real [1..<Suc (Suc ?n)])"
    by (metis union_single_eq_member)
  then obtain m where "priority c = real m" "1 \<le> m" "m < Suc (Suc ?n)"
    by (auto simp del: upt_Suc)
  then show ?thesis by (intro that[of m]) simp_all
qed

lemma same_lane_ranks:
  assumes D: "distinct (map id' db)" and C: "c \<in> set db" "Num (id' c) = i"
    and dense: "dense_unique (status c) db"
  shows "sort (map priority (targetClients i (status c) db)) =
         map (shifted (priority c)) [0..<length (targetClients i (status c) db)]"
proof -
  let ?T = "targetClients i (status c) db"
  let ?n = "length ?T"
  obtain m where m: "priority c = real m" "1 \<le> m" "m \<le> Suc ?n"
    using own_rank[OF D C dense] by blast
  from lane_split[OF D C] have "size (mset (map priority (lane (status c) db))) = Suc ?n"
    by simp
  then have len: "length (lane (status c) db) = Suc ?n" by simp
  from dense have "mset (map priority (lane (status c) db)) = mset (map real [1..<Suc (Suc ?n)])"
    by (simp add: dense_unique_iff len)
  with lane_split[OF D C] shifted_mset[OF m(2,3)]
  have "add_mset (priority c) (mset (map priority ?T)) =
        add_mset (priority c) (mset (map (shifted (priority c)) [0..<?n]))"
    by (simp only: m(1))
  then have "mset (map (shifted (priority c)) [0..<?n]) = mset (map priority ?T)"
    by simp
  then show ?thesis
    by (rule properties_for_sort) (rule sorted_shifted)
qed

subsection \<open>Insertion by shifting, and the fixed point\<close>

text \<open>Assignments computed from the rows themselves.\<close>
lemma assign1_by_row:
  assumes D: "distinct (map id' db)" and sub: "set cs \<subseteq> set db" and x: "x \<in> set db"
  shows "assign1 (zip (map id' cs) (map h cs)) x = (if x \<in> set cs then x\<lparr>priority := h x\<rparr> else x)"
proof (cases "x \<in> set cs")
  case False
  from map_of_zip_other[OF D sub x False]
  have "map_of (zip (map id' cs) (map h cs)) (id' x) = None" .
  from assign1_None[OF this] False show ?thesis by simp
next
  case True
  let ?al = "zip (map id' cs) (map h cs)"
  have zip: "?al = map (\<lambda>y. (id' y, h y)) cs"
    by (induction cs) auto
  from True have "id' x \<in> fst ` set ?al"
    unfolding zip by force
  then obtain p where p: "map_of ?al (id' x) = Some p"
    by (metis map_of_eq_None_iff not_Some_eq)
  then have "(id' x, p) \<in> set ?al" by (rule map_of_SomeD)
  then obtain y where y: "y \<in> set cs" "id' y = id' x" "p = h y"
    unfolding zip by auto
  with sub x have "y = x" by (intro same_id_same_row[OF D]) auto
  with y p have "map_of ?al (id' x) = Some (h x)" by simp
  from assign1_Some[OF this] True show ?thesis by simp
qed

lemma new_assignments_dense:
  assumes dense: "dense_ranks (targetClients i ns db)"
  shows "new_assignments i ns np db =
     (let cs = sort_key priority (targetClients i ns db)
      in zip (map id' cs) (map (\<lambda>x. if priority x \<ge> np then priority x + 1 else priority x) cs))"
proof -
  let ?T = "targetClients i ns db"
  let ?S = "sort_key priority ?T"
  let ?g = "\<lambda>p. if p \<ge> np then p + 1 else p"
  have "map priority ?S = map real [1..<Suc (length ?T)]"
    using dense by (simp add: map_priority_sort_key dense_ranks_def)
  then have "map (\<lambda>x. ?g (priority x)) ?S = map ?g (map real [1..<Suc (length ?T)])"
    by (metis (no_types, lifting) map_map comp_def map_eq_conv)
  also have "\<dots> = map (shifted np) [0..<length ?S]"
    by (rule nth_equalityI) (auto simp: shifted_def Let_def simp del: upt_Suc)
  finally show ?thesis
    by (simp add: new_assignments_def Let_def)
qed

lemma reorder_fixed_point:
  assumes D: "distinct (map id' db)" and C: "c \<in> set db" "Num (id' c) = i"
    and dense: "dense_unique (status c) db"
  shows "reorder i c (status c) (priority c) db db = db"
proof -
  let ?T = "targetClients i (status c) db"
  let ?S = "sort_key priority ?T"
  have sub: "set ?S \<subseteq> set db" by (auto simp: targetClients_def)
  have "map (shifted (priority c)) [0..<length ?S] = map priority ?S"
    using same_lane_ranks[OF D C dense] by (simp add: map_priority_sort_key)
  then have al: "new_assignments i (status c) (priority c) db = zip (map id' ?S) (map priority ?S)"
    by (simp add: new_assignments_def Let_def)
  have "map (row_after i c (status c) (priority c) db) db = db"
  proof (rule map_idI)
    fix x assume x: "x \<in> set db"
    have "assign1 (new_assignments i (status c) (priority c) db) x = x"
      unfolding al using assign1_by_row[OF D sub x, of priority] by simp
    then show "row_after i c (status c) (priority c) db x = x"
      using same_id_same_row[OF D x C(1)] C(2)
      by (auto simp: row_after_def old_assignments_def upd1_def)
  qed
  then show ?thesis by (simp add: reorder_rows[OF D])
qed

section \<open>The paths of the handler\<close>

lemma validateId_found:
  assumes "find (\<lambda>x. Num (id' x) = i) db = Some c"
  shows "validateId i db = \<lparr>valid = True, messageObj = None\<rparr>"
proof -
  from find_target(2)[OF assms] have "\<not> Number_isNaN i" by auto
  with assms show ?thesis by (simp add: validateId_def db_get_def)
qed

lemma clamped_Num:
  "clamped (Num r) n = Num (max 1 (min r (real (n + 1))))"
  by (simp add: clamped_def)

lemma clamped_after_validation:
  "valid (validatePriority p) \<Longrightarrow> \<exists>r. clamped p n = Num r"
  by (cases p) (simp_all add: validatePriority_def clamped_def)

lemma put_client_priority_Num:
  assumes "find (\<lambda>x. Num (id' x) = i) db = Some c"
  shows "put_client i st (Some (Num r)) db =
     (let ns = (case st of Some s \<Rightarrow> s | None \<Rightarrow> status c);
          db' = reorder i c ns (max 1 (min r (real (length (targetClients i ns db) + 1)))) db db
      in Result (Some (Response 200 (ClientsBody db'))) None db')"
  using assms
  by (simp add: put_client_def validateId_found db_all_def validatePriority_def clamped_Num
      send_def Let_def)

lemma put_client_status_only:
  assumes "find (\<lambda>x. Num (id' x) = i) db = Some c"
  shows "put_client i (Some s) None db =
     (let np = (if s \<noteq> status c then real (length (targetClients i s db) + 1) else priority c);
          db' = reorder i c s np db db
      in Result (Some (Response 200 (ClientsBody db'))) None db')"
  using assms
  by (simp add: put_client_def validateId_found db_all_def send_def Let_def)

lemma put_client_nothing:
  assumes "find (\<lambda>x. Num (id' x) = i) db = Some c"
  shows "put_client i None None db = Result (Some (Response 200 (ClientsBody db))) None db"
  using assms
  by (simp add: put_client_def validateId_found db_all_def send_def Let_def)

lemma put_client_priority_NaN:
  assumes "find (\<lambda>x. Num (id' x) = i) db = Some c"
  shows "put_client i st (Some NaN) db =
     Result (Some (Response 400 (MessageBody (Some (Message ''Invalid priority provided.''
        ''Priority can only be positive integer.''))))) None db"
  using assms
  by (simp add: put_client_def validateId_found db_all_def validatePriority_def send_def Let_def)

lemma put_client_invalid_id:
  assumes "find (\<lambda>x. Num (id' x) = i) db = None"
  shows "put_client i st pr db =
     Result (Some (Response 400 (MessageBody (messageObj (validateId i db)))))
       (Some (if st = None \<and> pr = None then HeadersSent else TypeError)) db"
proof -
  from assms have "\<not> valid (validateId i db)"
    by (simp add: validateId_def db_get_def)
  with assms show ?thesis
    by (simp add: put_client_def db_all_def send_def Let_def)
qed

section \<open>The claims\<close>

lemma positive_integer_nat:
  assumes "positive_integer p"
  obtains k where "p = Num (real k)" "1 \<le> k"
proof (cases p)
  case NaN
  with assms show ?thesis by simp
next
  case (Num r)
  with assms have r: "0 < r" "of_int \<lfloor>r\<rfloor> = r" by simp_all
  define z where "z = \<lfloor>r\<rfloor>"
  have z1: "r = of_int z" unfolding z_def by (rule r(2)[symmetric])
  with r(1) have "(0::real) < of_int z" by (simp only:)
  then have "0 < z" by (simp only: of_int_0_less_iff)
  note z = z1 this
  then have "r = real (nat z)" "1 \<le> nat z" by simp_all
  with Num show ?thesis by (intro that[of "nat z"]) simp_all
qed

lemma clamp_nat:
  "1 \<le> k \<Longrightarrow> max 1 (min (real k) (real (n + 1))) = real (min k (Suc n))"
  by (simp add: min_def max_def)

lemma put_client_dense:
  assumes D: "distinct (map id' db)" and inv: "swimlane_invariant db"
    and F: "find (\<lambda>x. Num (id' x) = i) db = Some c"
    and P: "case pr of None \<Rightarrow> True | Some p \<Rightarrow> positive_integer p"
  shows "dense_unique s (store (put_client i st pr db))"
proof -
  note C = find_target[OF F]
  show ?thesis
  proof (cases pr)
    case (Some p)
    with P obtain k where k: "p = Num (real k)" "1 \<le> k"
      using positive_integer_nat by auto
    let ?ns = "case st of Some s \<Rightarrow> s | None \<Rightarrow> status c"
    let ?m = "min k (Suc (length (targetClients i ?ns db)))"
    have "1 \<le> ?m" "?m \<le> Suc (length (targetClients i ?ns db))" using k(2) by simp_all
    from reorder_dense[OF D C inv this]
    show ?thesis
      unfolding Some k(1) put_client_priority_Num[OF F] Let_def clamp_nat[OF k(2)] by simp
  next
    case None
    note pr = this
    show ?thesis
    proof (cases st)
      case None
      with pr show ?thesis
        by (simp add: put_client_nothing[OF F] dense_unique_all[OF inv])
    next
      case (Some ns)
      show ?thesis
      proof (cases "ns = status c")
        case True
        obtain m where m: "priority c = real m" "1 \<le> m"
          "m \<le> Suc (length (targetClients i (status c) db))"
          using own_rank[OF D C dense_unique_all[OF inv]] by blast
        from reorder_dense[OF D C inv m(2,3)]
        show ?thesis
          unfolding pr Some put_client_status_only[OF F] Let_def True m(1) by simp
      next
        case False
        have "1 \<le> Suc (length (targetClients i ns db))" by simp
        from reorder_dense[OF D C inv this le_refl]
        show ?thesis
          unfolding pr Some put_client_status_only[OF F] Let_def using False by simp
      qed
    qed
  qed
qed

lemma put_client_completes:
  assumes F: "find (\<lambda>x. Num (id' x) = i) db = Some c"
    and P: "case pr of None \<Rightarrow> True | Some p \<Rightarrow> positive_integer p"
  shows "raised (put_client i st pr db) = None"
proof (cases pr)
  case None
  then show ?thesis
    by (cases st) (simp_all add: put_client_nothing[OF F] put_client_status_only[OF F] Let_def)
next
  case (Some p)
  with P obtain k where "p = Num (real k)"
    using positive_integer_nat by auto
  with Some show ?thesis
    by (simp add: put_client_priority_Num[OF F] Let_def)
qed

text \<open>
  C1. From a table with unique ids whose swimlanes all hold the priorities 1, ..., n
  exactly once, a well-formed move request (the id of a client of the table, a status of
  the enumeration or none, a positive integer priority or none) runs to its end and
  leaves a table whose swimlanes all hold the priorities 1, ..., n exactly once again: in
  particular the swimlane the client left and the one it arrived in.
\<close>

theorem put_client_preserves_invariant:
  assumes "distinct (map id' db)"
    and "swimlane_invariant db"
    and "well_formed_request i status_opt priority_opt db"
  shows "raised (put_client i status_opt priority_opt db) = None \<and>
         swimlane_invariant (store (put_client i status_opt priority_opt db)) \<and>
         (\<forall>c. find (\<lambda>x. Num (id' x) = i) db = Some c \<longrightarrow>
            dense_unique (status c) (store (put_client i status_opt priority_opt db)) \<and>
            dense_unique (case status_opt of Some s \<Rightarrow> s | None \<Rightarrow> status c)
              (store (put_client i status_opt priority_opt db)))"
proof -
  from assms(3) obtain c where c: "c \<in> set db" "Num (id' c) = i"
    by (auto simp: well_formed_request_def)
  from find_target_unique[OF assms(1) c]
  have F: "find (\<lambda>x. Num (id' x) = i) db = Some c" .
  from assms(3) have P: "case priority_opt of None \<Rightarrow> True | Some p \<Rightarrow> positive_integer p"
    by (simp add: well_formed_request_def)
  have "dense_unique s (store (put_client i status_opt priority_opt db))" for s
    by (rule put_client_dense[OF assms(1,2) F P])
  then show ?thesis
    by (simp add: swimlane_invariant_def put_client_completes[OF F P])
qed

lemma board_distinct: "distinct (map id' board)"
  by (simp add: board_def client_A_def client_B_def client_C_def client_D_def)

lemma board_invariant: "swimlane_invariant board"
  by (simp add: swimlane_invariant_def dense_unique_def dense_ranks_def lane_def board_def
      client_A_def client_B_def client_C_def client_D_def)

theorem put_client_preserves_invariant_witness:
  "distinct (map id' board) \<and> swimlane_invariant board \<and>
   well_formed_request (Num 2) (Some ''in-progress'') (Some (Num 1)) board \<and>
   raised (put_client (Num 2) (Some ''in-progress'') (Some (Num 1)) board) = None \<and>
   swimlane_invariant (store (put_client (Num 2) (Some ''in-progress'') (Some (Num 1)) board)) \<and>
   dense_unique ''backlog'' (store (put_client (Num 2) (Some ''in-progress'') (Some (Num 1)) board)) \<and>
   dense_unique ''in-progress'' (store (put_client (Num 2) (Some ''in-progress'') (Some (Num 1)) board))"
proof -
  have wf: "well_formed_request (Num 2) (Some ''in-progress'') (Some (Num 1)) board"
    by (simp add: well_formed_request_def status_enumeration_def board_def
        client_A_def client_B_def client_C_def client_D_def)
  have F: "find (\<lambda>x. Num (id' x) = Num 2) board = Some client_B"
    by (simp add: board_def client_A_def client_B_def client_C_def client_D_def)
  from put_client_preserves_invariant[OF board_distinct board_invariant wf] F
  have "raised (put_client (Num 2) (Some ''in-progress'') (Some (Num 1)) board) = None \<and>
     swimlane_invariant (store (put_client (Num 2) (Some ''in-progress'') (Some (Num 1)) board)) \<and>
     dense_unique (status client_B) (store (put_client (Num 2) (Some ''in-progress'') (Some (Num 1)) board)) \<and>
     dense_unique ''in-progress'' (store (put_client (Num 2) (Some ''in-progress'') (Some (Num 1)) board))"
    by simp
  then show ?thesis
    using board_distinct board_invariant wf by (simp add: client_B_def)
qed

lemma find_map_same:
  "(\<And>x. P (f x) = P x) \<Longrightarrow> find P (map f xs) = map_option f (find P xs)"
  by (induction xs) auto

lemma row_after_self:
  assumes D: "distinct (map id' db)" and C: "c \<in> set db" "Num (id' c) = i"
  shows "row_after i client ns np db c = c\<lparr>status := ns, priority := np\<rparr>"
proof -
  from C have "map_of (old_assignments i client ns db) (id' c) = None"
    by (intro old_assignments_other[OF D]) auto
  moreover from C have "map_of (new_assignments i ns np db) (id' c) = None"
    by (intro new_assignments_other[OF D]) auto
  ultimately show ?thesis
    using C(2) by (simp add: row_after_def assign1_None upd1_def)
qed

text \<open>Where the moved client stands after the writes.\<close>
lemma find_after_reorder:
  assumes D: "distinct (map id' db)" and F: "find (\<lambda>x. Num (id' x) = i) db = Some c"
  shows "find (\<lambda>x. Num (id' x) = i) (reorder i client ns np db db) =
         Some (c\<lparr>status := ns, priority := np\<rparr>)"
  using find_map_same[of "\<lambda>x. Num (id' x) = i" "row_after i client ns np db" db]
    row_after_self[OF D find_target[OF F]] F
  by (simp add: reorder_rows[OF D])

lemma clamp_cases:
  "max 1 (min r (real (n + 1))) =
   (if r < 1 then 1 else if real n + 1 < r then real n + 1 else r)"
  by (simp add: min_def max_def)

text \<open>
  C2. A numeric priority \<open>r\<close> passes the validation, and the priority used is \<open>r\<close>
  clamped into 1, ..., n + 1, where n is the number of clients of the target swimlane,
  the moved client apart: 1 below 1, n + 1 above n + 1, \<open>r\<close> itself in between. It is the
  priority the moved client is stored with. (Requesting 99 with two clients in the target
  swimlane gives 3: the witness.)
\<close>

theorem priority_is_clamped:
  fixes db :: "'a clients"
  defines "ns \<equiv> \<lambda>status_opt c. (case status_opt of Some s \<Rightarrow> s | None \<Rightarrow> status (c :: 'a client_scheme))"
  defines "eff \<equiv> \<lambda>r n. (if r < 1 then 1 else if real n + 1 < r then real n + 1 else r)"
  assumes "distinct (map id' db)"
    and "find (\<lambda>x. Num (id' x) = i) db = Some c"
    and "valid (validatePriority (Num r))"
    and "n = length (targetClients i (ns status_opt c) db)"
  shows "clamped (Num r) n = Num (eff r n) \<and>
         1 \<le> eff r n \<and> eff r n \<le> real n + 1 \<and>
         find (\<lambda>x. Num (id' x) = i) (store (put_client i status_opt (Some (Num r)) db)) =
           Some (c\<lparr>status := ns status_opt c, priority := eff r n\<rparr>)"
proof -
  have "clamped (Num r) n = Num (eff r n)"
    unfolding eff_def by (simp only: clamped_Num clamp_cases)
  moreover have "1 \<le> eff r n" "eff r n \<le> real n + 1"
    unfolding eff_def by simp_all
  moreover have "find (\<lambda>x. Num (id' x) = i) (store (put_client i status_opt (Some (Num r)) db)) =
           Some (c\<lparr>status := ns status_opt c, priority := eff r n\<rparr>)"
    unfolding put_client_priority_Num[OF assms(4)] Let_def result.sel
      find_after_reorder[OF assms(3,4)] clamp_cases
    using assms(6) by (simp add: ns_def eff_def)
  ultimately show ?thesis by simp
qed

theorem priority_is_clamped_witness:
  "distinct (map id' board) \<and>
   find (\<lambda>x. Num (id' x) = Num 1) board = Some client_A \<and>
   valid (validatePriority (Num 99)) \<and>
   length (targetClients (Num 1) ''backlog'' board) = 2 \<and>
   clamped (Num 99) 2 = Num 3 \<and>
   find (\<lambda>x. Num (id' x) = Num 1) (store (put_client (Num 1) None (Some (Num 99)) board)) =
     Some (client_A\<lparr>priority := 3\<rparr>)"
proof -
  have F: "find (\<lambda>x. Num (id' x) = Num 1) board = Some client_A"
    by (simp add: board_def client_A_def)
  have V: "valid (validatePriority (Num 99))"
    by (simp add: validatePriority_def)
  have L: "2 = length (targetClients (Num 1) (case None of Some s \<Rightarrow> s | None \<Rightarrow> status client_A) board)"
    by (simp add: targetClients_def board_def client_A_def client_B_def client_C_def client_D_def)
  from priority_is_clamped[OF board_distinct F V L] F V L
  show ?thesis
    using board_distinct by (simp add: client_A_def)
qed

text \<open>
  C3 (the code differs). A status outside the enumeration is not refused: the handler
  answers 200 and stores it. Here client 3 of the board is moved to \<open>archived\<close>.
\<close>

theorem unknown_status_is_stored:
  "''archived'' \<notin> set status_enumeration \<and>
   put_client (Num 3) (Some ''archived'') None board =
     Result
       (Some (Response 200 (ClientsBody
          [client_A, client_B, client_C\<lparr>status := ''archived'', priority := 1\<rparr>, client_D])))
       None
       [client_A, client_B, client_C\<lparr>status := ''archived'', priority := 1\<rparr>, client_D]"
  by (simp add: status_enumeration_def put_client_def board_def client_A_def client_B_def
      client_C_def client_D_def validateId_def db_get_def db_all_def send_def reorder_def
      insert_and_place_def targetClients_def oldClients_def remove_from_old_def
      insert_into_new_def shifted_def db_update_priority_def db_update_status_priority_def
      Let_def)

text \<open>
  C4 (as stated, false). A priority of 0 is not a positive integer, yet
  \<open>validatePriority\<close> accepts it and the handler answers 200 and writes: client 3 of
  the board, asked to priority 0, goes to the top of its swimlane.
\<close>

theorem zero_priority_counterexample:
  "\<not> positive_integer (Num 0) \<and>
   valid (validatePriority (Num 0)) \<and>
   put_client (Num 3) None (Some (Num 0)) board =
     Result
       (Some (Response 200 (ClientsBody
          [client_A\<lparr>priority := 2\<rparr>, client_B\<lparr>priority := 3\<rparr>, client_C\<lparr>priority := 1\<rparr>,
           client_D])))
       None
       [client_A\<lparr>priority := 2\<rparr>, client_B\<lparr>priority := 3\<rparr>, client_C\<lparr>priority := 1\<rparr>,
        client_D] \<and>
   store (put_client (Num 3) None (Some (Num 0)) board) \<noteq> board"
  by (simp add: put_client_def board_def client_A_def client_B_def
      client_C_def client_D_def validateId_def validatePriority_def clamped_def
      db_get_def db_all_def send_def reorder_def
      insert_and_place_def targetClients_def oldClients_def remove_from_old_def
      insert_into_new_def shifted_def db_update_priority_def db_update_status_priority_def
      Let_def)

text \<open>
  C4, amended. For a client of the table, a provided priority that is zero or a
  negative integer is not refused: \<open>validatePriority\<close> accepts it, line 149 clamps it
  to 1, the reorder runs to its end and the handler answers 200 with the table it has
  written, in which the moved client has priority 1 in the swimlane asked for.
\<close>

theorem nonpositive_priority_is_clamped_to_1:
  assumes "distinct (map id' db)"
    and "find (\<lambda>x. Num (id' x) = i) db = Some c"
    and "k \<le> 0"
  shows "valid (validatePriority (Num (of_int k))) \<and>
         sent (put_client i status_opt (Some (Num (of_int k))) db) =
           Some (Response 200 (ClientsBody (store (put_client i status_opt (Some (Num (of_int k))) db)))) \<and>
         raised (put_client i status_opt (Some (Num (of_int k))) db) = None \<and>
         find (\<lambda>x. Num (id' x) = i) (store (put_client i status_opt (Some (Num (of_int k))) db)) =
           Some (c\<lparr>status := (case status_opt of Some s \<Rightarrow> s | None \<Rightarrow> status c), priority := 1\<rparr>)"
proof -
  have "valid (validatePriority (Num (of_int k)))"
    by (simp add: validatePriority_def)
  moreover have "sent (put_client i status_opt (Some (Num (of_int k))) db) =
      Some (Response 200 (ClientsBody (store (put_client i status_opt (Some (Num (of_int k))) db))))"
    by (simp add: put_client_priority_Num[OF assms(2)] Let_def)
  moreover have "raised (put_client i status_opt (Some (Num (of_int k))) db) = None"
    by (simp add: put_client_priority_Num[OF assms(2)] Let_def)
  moreover have "max 1 (min (real_of_int k) (real (n + 1))) = 1" for n
    using assms(3) by (simp add: min_def max_def)
  then have "find (\<lambda>x. Num (id' x) = i) (store (put_client i status_opt (Some (Num (of_int k))) db)) =
      Some (c\<lparr>status := (case status_opt of Some s \<Rightarrow> s | None \<Rightarrow> status c), priority := 1\<rparr>)"
    unfolding put_client_priority_Num[OF assms(2)] Let_def result.sel
    by (simp only: find_after_reorder[OF assms(1,2)])
  ultimately show ?thesis by simp
qed

theorem nonpositive_priority_is_clamped_to_1_witness:
  "distinct (map id' board) \<and>
   find (\<lambda>x. Num (id' x) = Num 3) board = Some client_C \<and>
   (-2 :: int) \<le> 0 \<and>
   valid (validatePriority (Num (- 2))) \<and>
   raised (put_client (Num 3) None (Some (Num (- 2))) board) = None \<and>
   find (\<lambda>x. Num (id' x) = Num 3) (store (put_client (Num 3) None (Some (Num (- 2))) board)) =
     Some (client_C\<lparr>priority := 1\<rparr>)"
proof -
  have F: "find (\<lambda>x. Num (id' x) = Num 3) board = Some client_C"
    by (simp add: board_def client_A_def client_B_def client_C_def)
  have K: "(-2 :: int) \<le> 0" by simp
  from nonpositive_priority_is_clamped_to_1[OF board_distinct F K, of None] F
  show ?thesis
    using board_distinct by (simp add: client_C_def)
qed

lemma insert_into_new_same_lane:
  assumes D: "distinct (map id' db)" and C: "c \<in> set db" "Num (id' c) = i"
    and dense: "dense_unique (status c) db"
  shows "insert_into_new (priority c) (targetClients i (status c) db) db = db"
proof -
  let ?T = "targetClients i (status c) db"
  let ?S = "sort_key priority ?T"
  have dS: "distinct (map id' ?S)"
    using D by (simp add: distinct_ids_sort_key targetClients_def distinct_map_filter)
  have sub: "set ?S \<subseteq> set db" by (auto simp: targetClients_def)
  have "map (shifted (priority c)) [0..<length ?S] = map priority ?S"
    using same_lane_ranks[OF D C dense] by (simp add: map_priority_sort_key)
  with forEach_assign[OF dS, of "shifted (priority c)" 0 db]
  have "insert_into_new (priority c) ?T db = assign (zip (map id' ?S) (map priority ?S)) db"
    by (simp add: insert_into_new_def)
  also have "\<dots> = db"
    unfolding assign_def
  proof (rule map_idI)
    fix x assume "x \<in> set db"
    from assign1_by_row[OF D sub this, of priority]
    show "assign1 (zip (map id' ?S) (map priority ?S)) x = x" by simp
  qed
  finally show ?thesis .
qed

lemma own_priority_clamped:
  assumes D: "distinct (map id' db)" and C: "c \<in> set db" "Num (id' c) = i"
    and dense: "dense_unique (status c) db"
  shows "max 1 (min (priority c) (real (length (targetClients i (status c) db) + 1))) = priority c"
proof -
  obtain m where "priority c = real m" "1 \<le> m" "m \<le> Suc (length (targetClients i (status c) db))"
    using own_rank[OF D C dense] by blast
  then show ?thesis by (simp add: min_def max_def)
qed

text \<open>
  C6. In a table with unique ids whose swimlanes are dense, asking a client to the
  status and the priority it already has changes nothing: the handler answers 200 with
  the table as it was, and the table is as it was.
\<close>

theorem request_of_current_position_is_noop:
  assumes "distinct (map id' db)"
    and "swimlane_invariant db"
    and "find (\<lambda>x. Num (id' x) = i) db = Some c"
  shows "put_client i (Some (status c)) (Some (Num (priority c))) db =
         Result (Some (Response 200 (ClientsBody db))) None db"
proof -
  note C = find_target[OF assms(3)]
  note dense = dense_unique_all[OF assms(2), of "status c"]
  show ?thesis
    unfolding put_client_priority_Num[OF assms(3)] Let_def option.case
      own_priority_clamped[OF assms(1) C dense]
    by (simp add: reorder_fixed_point[OF assms(1) C dense])
qed

theorem request_of_current_position_is_noop_witness:
  "distinct (map id' board) \<and> swimlane_invariant board \<and>
   find (\<lambda>x. Num (id' x) = Num 2) board = Some client_B \<and>
   put_client (Num 2) (Some ''backlog'') (Some (Num 2)) board =
     Result (Some (Response 200 (ClientsBody board))) None board"
proof -
  have F: "find (\<lambda>x. Num (id' x) = Num 2) board = Some client_B"
    by (simp add: board_def client_A_def client_B_def)
  from request_of_current_position_is_noop[OF board_distinct board_invariant F] F
  show ?thesis
    using board_distinct board_invariant by (simp add: client_B_def)
qed

text \<open>
  C10. In a table with unique ids whose swimlanes are dense, a request that gives the
  status the client already has and no priority leaves the table as it was. The request
  is not the empty one (that of line 130): the loop over the target swimlane runs and
  writes to every client of it the priority it has, and the client itself is written
  with its own status and priority.
\<close>

theorem same_status_without_priority_is_noop:
  assumes "distinct (map id' db)"
    and "swimlane_invariant db"
    and "find (\<lambda>x. Num (id' x) = i) db = Some c"
  shows "put_client i (Some (status c)) None db =
           Result (Some (Response 200 (ClientsBody db))) None db \<and>
         insert_into_new (priority c) (targetClients i (status c) db) db = db \<and>
         db_update_status_priority (status c) (priority c) i db = db"
proof -
  note C = find_target[OF assms(3)]
  note dense = dense_unique_all[OF assms(2), of "status c"]
  have "put_client i (Some (status c)) None db = Result (Some (Response 200 (ClientsBody db))) None db"
    by (simp add: put_client_status_only[OF assms(3)] reorder_fixed_point[OF assms(1) C dense])
  moreover note insert_into_new_same_lane[OF assms(1) C dense]
  moreover have "db_update_status_priority (status c) (priority c) i db = db"
    unfolding db_update_status_priority_def
  proof (rule map_idI)
    fix x assume "x \<in> set db"
    with same_id_same_row[OF assms(1) this C(1)] C(2)
    show "(if Num (id' x) = i then x\<lparr>status := status c, priority := priority c\<rparr> else x) = x"
      by auto
  qed
  ultimately show ?thesis by simp
qed

theorem same_status_without_priority_is_noop_witness:
  "distinct (map id' board) \<and> swimlane_invariant board \<and>
   find (\<lambda>x. Num (id' x) = Num 2) board = Some client_B \<and>
   put_client (Num 2) (Some ''backlog'') None board =
     Result (Some (Response 200 (ClientsBody board))) None board \<and>
   length (targetClients (Num 2) ''backlog'' board) = 2 \<and>
   insert_into_new 2 (targetClients (Num 2) ''backlog'' board) board = board"
proof -
  have F: "find (\<lambda>x. Num (id' x) = Num 2) board = Some client_B"
    by (simp add: board_def client_A_def client_B_def)
  have L: "length (targetClients (Num 2) ''backlog'' board) = 2"
    by (simp add: targetClients_def board_def client_A_def client_B_def client_C_def client_D_def)
  from same_status_without_priority_is_noop[OF board_distinct board_invariant F] F L
  show ?thesis
    using board_distinct board_invariant by (simp add: client_B_def)
qed

lemma enumerate_ranks:
  "map (\<lambda>(k, x). x\<lparr>priority := real (k + 1)\<rparr>) (enumerate 0 cs) =
   map (\<lambda>k. (cs ! k)\<lparr>priority := real (k + 1)\<rparr>) [0..<length cs]"
  by (rule nth_equalityI) (simp_all add: nth_enumerate_eq)

text \<open>The old swimlane after the writes, in the order of the table.\<close>
lemma old_lane_rows:
  assumes D: "distinct (map id' db)" and C: "c \<in> set db" "Num (id' c) = i"
    and changed: "ns \<noteq> status c"
  shows "lane (status c) (reorder i c ns np db db) =
         map (assign1 (old_assignments i c ns db)) (oldClients i c db)"
proof -
  let ?f = "row_after i c ns np db"
  have "filter (\<lambda>x. status (?f x) = status c) db = oldClients i c db"
    unfolding oldClients_def using changed by (intro filter_cong) (auto simp: row_after_status)
  then have "lane (status c) (map ?f db) = map ?f (oldClients i c db)"
    by (simp add: lane_def filter_map comp_def)
  also have "\<dots> = map (assign1 (old_assignments i c ns db)) (oldClients i c db)"
  proof (rule map_cong[OF refl])
    fix x assume "x \<in> set (oldClients i c db)"
    then have "x \<in> set db" "Num (id' x) \<noteq> i" "status x = status c"
      by (auto simp: set_old_sorted)
    then show "?f x = assign1 (old_assignments i c ns db) x"
      using row_after_in_old[OF D _ _ _ changed] by simp
  qed
  finally show ?thesis by (simp add: reorder_rows[OF D])
qed

lemma old_sorted_rows:
  assumes D: "distinct (map id' db)" and changed: "ns \<noteq> status c"
  shows "map (assign1 (old_assignments i c ns db)) (sort_key priority (oldClients i c db)) =
         map (\<lambda>(k, x). x\<lparr>priority := real (k + 1)\<rparr>) (enumerate 0 (sort_key priority (oldClients i c db)))"
proof -
  let ?S = "sort_key priority (oldClients i c db)"
  have dS: "distinct (map id' ?S)"
    using D by (simp add: distinct_ids_sort_key oldClients_def distinct_map_filter)
  have al: "old_assignments i c ns db = zip (map id' ?S) (map (\<lambda>idx. real (idx + 1)) [0..<length ?S])"
    using changed by (simp add: old_assignments_def Let_def)
  have "assign1 (old_assignments i c ns db) (?S ! k) = (?S ! k)\<lparr>priority := real (k + 1)\<rparr>"
    if "k < length ?S" for k
  proof -
    from map_of_zip_nth[of "map id' ?S" "map (\<lambda>idx. real (idx + 1)) [0..<length ?S]" k] dS that
    have "map_of (old_assignments i c ns db) (id' (?S ! k)) = Some (real (k + 1))"
      unfolding al by simp
    then show ?thesis by (rule assign1_Some)
  qed
  then show ?thesis
    unfolding enumerate_ranks by (intro nth_equalityI) simp_all
qed

lemma old_lane_sorted:
  assumes D: "distinct (map id' db)" and C: "c \<in> set db" "Num (id' c) = i"
    and changed: "ns \<noteq> status c"
  shows "sort_key priority (lane (status c) (reorder i c ns np db db)) =
         map (\<lambda>(k, x). x\<lparr>priority := real (k + 1)\<rparr>) (enumerate 0 (sort_key priority (oldClients i c db)))"
proof -
  let ?O = "oldClients i c db"
  let ?S = "sort_key priority ?O"
  let ?g = "assign1 (old_assignments i c ns db)"
  let ?xs = "sort_key priority (map ?g ?O)"
  let ?ys = "map ?g ?S"
  have prio_ys: "map priority ?ys = map real [1..<Suc (length ?O)]"
    unfolding old_sorted_rows[OF D changed] enumerate_ranks
    by (rule nth_equalityI) (simp_all del: upt_Suc)
  have set_eq: "set ?xs = set ?ys" by simp
  have d_ys: "distinct (map priority ?ys)"
    unfolding prio_ys by (simp add: distinct_map del: upt_Suc)
  have s_ys: "sorted (map priority ?ys)"
    unfolding prio_ys by (rule sorted_map_real_upt)
  have "mset (map priority ?xs) = mset (map priority ?ys)"
  proof -
    have "mset ?xs = mset ?ys" by simp
    then show ?thesis by (metis mset_map)
  qed
  then have d_xs: "distinct (map priority ?xs)"
    using d_ys by (metis mset_eq_imp_distinct_iff)
  have "inj_on priority (set ?ys)"
    using d_ys unfolding distinct_map by (rule conjunct2)
  then have inj: "inj_on priority (set ?xs \<union> set ?ys)"
    unfolding set_eq Un_absorb .
  have "?xs = ?ys"
    by (rule map_sorted_distinct_set_unique[OF inj sorted_sort_key d_xs s_ys d_ys set_eq])
  then show ?thesis
    by (simp only: old_lane_rows[OF D C changed] old_sorted_rows[OF D changed])
qed

text \<open>
  C7. A request that changes the status of a client and gives no priority puts the
  client at the end of its new swimlane (rank n + 1, n the clients already there) and
  closes the ranks of the swimlane it leaves: listed by their new priority, the clients
  left behind are those of the old swimlane in the order of their old priority, the
  k-th of them (from 0) with priority k + 1. On the board of Scenario B, moving client A
  to \<open>in-progress\<close> gives backlog B:1, C:2 and in-progress D:1, A:2.
\<close>

theorem status_change_without_priority:
  assumes "distinct (map id' db)"
    and "find (\<lambda>x. Num (id' x) = i) db = Some c"
    and "s \<noteq> status c"
  shows "find (\<lambda>x. Num (id' x) = i) (store (put_client i (Some s) None db)) =
           Some (c\<lparr>status := s, priority := real (length (targetClients i s db) + 1)\<rparr>) \<and>
         sort_key priority (lane (status c) (store (put_client i (Some s) None db))) =
           map (\<lambda>(k, x). x\<lparr>priority := real (k + 1)\<rparr>)
             (enumerate 0 (sort_key priority (oldClients i c db))) \<and>
         store (put_client (Num 1) (Some ''in-progress'') None board) =
           [client_A\<lparr>status := ''in-progress'', priority := 2\<rparr>,
            client_B\<lparr>priority := 1\<rparr>, client_C\<lparr>priority := 2\<rparr>, client_D]"
proof -
  note C = find_target[OF assms(2)]
  have st: "store (put_client i (Some s) None db) =
      reorder i c s (real (length (targetClients i s db) + 1)) db db"
    using assms(3) by (simp add: put_client_status_only[OF assms(2)] Let_def)
  have "store (put_client (Num 1) (Some ''in-progress'') None board) =
           [client_A\<lparr>status := ''in-progress'', priority := 2\<rparr>,
            client_B\<lparr>priority := 1\<rparr>, client_C\<lparr>priority := 2\<rparr>, client_D]"
    by (simp add: put_client_def board_def client_A_def client_B_def
      client_C_def client_D_def validateId_def db_get_def db_all_def send_def reorder_def
      insert_and_place_def targetClients_def oldClients_def remove_from_old_def
      insert_into_new_def shifted_def db_update_priority_def db_update_status_priority_def
      Let_def)
  then show ?thesis
    unfolding st
    by (simp only: find_after_reorder[OF assms(1,2)] old_lane_sorted[OF assms(1) C assms(3)] simp_thms)
qed

theorem status_change_without_priority_witness:
  "distinct (map id' board) \<and>
   find (\<lambda>x. Num (id' x) = Num 1) board = Some client_A \<and>
   ''in-progress'' \<noteq> status client_A \<and>
   find (\<lambda>x. Num (id' x) = Num 1) (store (put_client (Num 1) (Some ''in-progress'') None board)) =
     Some (client_A\<lparr>status := ''in-progress'', priority := 2\<rparr>) \<and>
   sort_key priority (lane ''backlog'' (store (put_client (Num 1) (Some ''in-progress'') None board))) =
     [client_B\<lparr>priority := 1\<rparr>, client_C\<lparr>priority := 2\<rparr>]"
proof -
  have F: "find (\<lambda>x. Num (id' x) = Num 1) board = Some client_A"
    by (simp add: board_def client_A_def)
  have S: "''in-progress'' \<noteq> status client_A"
    by (simp add: client_A_def)
  have T: "length (targetClients (Num 1) ''in-progress'' board) = 1"
    by (simp add: targetClients_def board_def client_A_def client_B_def client_C_def client_D_def)
  have O: "sort_key priority (oldClients (Num 1) client_A board) = [client_B, client_C]"
    by (simp add: oldClients_def board_def client_A_def client_B_def client_C_def client_D_def)
  have A: "status client_A = ''backlog''" by (simp add: client_A_def)
  note main = status_change_without_priority[OF board_distinct F S]
  have 1: "find (\<lambda>x. Num (id' x) = Num 1) (store (put_client (Num 1) (Some ''in-progress'') None board)) =
     Some (client_A\<lparr>status := ''in-progress'', priority := 2\<rparr>)"
    using main[THEN conjunct1] by (simp add: T)
  have 2: "sort_key priority (lane ''backlog'' (store (put_client (Num 1) (Some ''in-progress'') None board))) =
     [client_B\<lparr>priority := 1\<rparr>, client_C\<lparr>priority := 2\<rparr>]"
    using main[THEN conjunct2, THEN conjunct1] by (simp add: O A enumerate_eq_zip)
  from board_distinct F S 1 2 show ?thesis by (intro conjI)
qed

text \<open>
  C8. When the clients of the target swimlane, the moved client apart, hold the
  priorities 1, ..., n exactly once (and the ids of the table are unique), the insertion
  the handler performs (sort by priority, number from 1, skip the effective priority)
  and the write of the moved client leave the same table as: every client of the target
  swimlane whose priority is at least the effective priority moves up by one, then the
  moved client is placed at the effective priority.
\<close>

theorem insertion_is_shift_and_place:
  assumes "distinct (map id' db)"
    and "dense_ranks (targetClients i newStatus db)"
  shows "insert_and_place i newStatus effectivePriority db db =
         shift_and_place i newStatus effectivePriority db"
proof -
  let ?S = "sort_key priority (targetClients i newStatus db)"
  let ?h = "\<lambda>x. if priority x \<ge> effectivePriority then priority x + 1 else priority x"
  have dS: "distinct (map id' ?S)"
    using assms(1) by (simp add: distinct_ids_sort_key targetClients_def distinct_map_filter)
  have sub: "set ?S \<subseteq> set db" by (auto simp: targetClients_def)
  have "insert_into_new effectivePriority (targetClients i newStatus db) db =
        assign (new_assignments i newStatus effectivePriority db) db"
    using forEach_assign[OF dS, of "shifted effectivePriority" 0 db]
    by (simp add: insert_into_new_def new_assignments_def Let_def)
  also have "\<dots> = assign (zip (map id' ?S) (map ?h ?S)) db"
    by (simp add: new_assignments_dense[OF assms(2)] Let_def)
  also have "\<dots> = shift_up i newStatus effectivePriority db"
    unfolding assign_def shift_up_def
  proof (rule map_cong[OF refl])
    fix x assume x: "x \<in> set db"
    from assign1_by_row[OF assms(1) sub this, of ?h]
    show "assign1 (zip (map id' ?S) (map ?h ?S)) x =
          (if status x = newStatus \<and> Num (id' x) \<noteq> i \<and> effectivePriority \<le> priority x
           then x\<lparr>priority := priority x + 1\<rparr> else x)"
      using x by (auto simp: targetClients_def)
  qed
  finally show ?thesis
    by (simp add: insert_and_place_def shift_and_place_def db_update_status_priority_def)
qed

theorem insertion_is_shift_and_place_witness:
  "distinct (map id' board) \<and>
   dense_ranks (targetClients (Num 4) ''backlog'' board) \<and>
   insert_and_place (Num 4) ''backlog'' 2 board board = shift_and_place (Num 4) ''backlog'' 2 board \<and>
   shift_and_place (Num 4) ''backlog'' 2 board =
     [client_A, client_B\<lparr>priority := 3\<rparr>, client_C\<lparr>priority := 4\<rparr>,
      client_D\<lparr>status := ''backlog'', priority := 2\<rparr>]"
proof -
  have dense: "dense_ranks (targetClients (Num 4) ''backlog'' board)"
    by (simp add: dense_ranks_def targetClients_def board_def client_A_def client_B_def
        client_C_def client_D_def)
  have "shift_and_place (Num 4) ''backlog'' 2 board =
     [client_A, client_B\<lparr>priority := 3\<rparr>, client_C\<lparr>priority := 4\<rparr>,
      client_D\<lparr>status := ''backlog'', priority := 2\<rparr>]"
    by (simp add: shift_and_place_def shift_up_def board_def client_A_def client_B_def
        client_C_def client_D_def)
  with insertion_is_shift_and_place[OF board_distinct dense, of 2] board_distinct dense
  show ?thesis by (intro conjI)
qed

lemma row_after_more: "client.more (row_after i client ns np db x) = client.more x"
  by (simp add: row_after_def upd1_def assign1_def split: option.split)

lemma store_cases:
  "store (put_client i st pr db) = db \<or>
   (\<exists>c np. find (\<lambda>x. Num (id' x) = i) db = Some c \<and>
      store (put_client i st pr db) =
        reorder i c (case st of Some s \<Rightarrow> s | None \<Rightarrow> status c) np db db)"
proof (cases "find (\<lambda>x. Num (id' x) = i) db")
  case None
  then show ?thesis by (simp add: put_client_invalid_id)
next
  case (Some c)
  show ?thesis
  proof (cases pr)
    case None
    note pr = this
    show ?thesis
    proof (cases st)
      case None
      with pr show ?thesis by (simp add: put_client_nothing[OF Some])
    next
      case (Some s)
      with pr \<open>find (\<lambda>x. Num (id' x) = i) db = Some c\<close> show ?thesis
        by (auto simp add: put_client_status_only[OF \<open>find (\<lambda>x. Num (id' x) = i) db = Some c\<close>] Let_def)
    qed
  next
    case (Some p)
    note pr = this
    show ?thesis
    proof (cases p)
      case NaN
      with pr show ?thesis
        by (simp add: put_client_priority_NaN[OF \<open>find (\<lambda>x. Num (id' x) = i) db = Some c\<close>])
    next
      case (Num r)
      with pr \<open>find (\<lambda>x. Num (id' x) = i) db = Some c\<close> show ?thesis
        by (auto simp add: put_client_priority_Num[OF \<open>find (\<lambda>x. Num (id' x) = i) db = Some c\<close>] Let_def)
    qed
  qed
qed

text \<open>
  C9. Whatever the request, in a table with unique ids: the table after the run has the
  rows of the table before, in the same order (no client is created or deleted); each
  row keeps its id and all its columns other than status and priority; and a row whose
  status is neither the status of the moved client nor the status asked for is the row
  it was, as is every row when the id names no client.
\<close>

theorem put_client_frame:
  assumes "distinct (map id' db)"
    and "k < length db"
  shows "length (store (put_client i status_opt priority_opt db)) = length db \<and>
         id' (store (put_client i status_opt priority_opt db) ! k) = id' (db ! k) \<and>
         client.more (store (put_client i status_opt priority_opt db) ! k) = client.more (db ! k) \<and>
         (find (\<lambda>x. Num (id' x) = i) db = None \<longrightarrow>
            store (put_client i status_opt priority_opt db) = db) \<and>
         (\<forall>c. find (\<lambda>x. Num (id' x) = i) db = Some c \<and>
               status (db ! k) \<noteq> status c \<and>
               status (db ! k) \<noteq> (case status_opt of Some s \<Rightarrow> s | None \<Rightarrow> status c) \<longrightarrow>
            store (put_client i status_opt priority_opt db) ! k = db ! k)"
proof -
  let ?db' = "store (put_client i status_opt priority_opt db)"
  have none: "find (\<lambda>x. Num (id' x) = i) db = None \<longrightarrow> ?db' = db"
    by (simp add: put_client_invalid_id)
  from store_cases[of i status_opt priority_opt db]
  show ?thesis
  proof
    assume "?db' = db"
    then show ?thesis by simp
  next
    assume "\<exists>c np. find (\<lambda>x. Num (id' x) = i) db = Some c \<and>
      ?db' = reorder i c (case status_opt of Some s \<Rightarrow> s | None \<Rightarrow> status c) np db db"
    then obtain c np where F: "find (\<lambda>x. Num (id' x) = i) db = Some c"
      and st: "?db' = map (row_after i c (case status_opt of Some s \<Rightarrow> s | None \<Rightarrow> status c) np db) db"
      by (auto simp: reorder_rows[OF assms(1)])
    note C = find_target[OF F]
    have x: "db ! k \<in> set db" using assms(2) by simp
    have "?db' ! k = db ! k"
      if "status (db ! k) \<noteq> status c"
        "status (db ! k) \<noteq> (case status_opt of Some s \<Rightarrow> s | None \<Rightarrow> status c)"
    proof -
      from same_id_same_row[OF assms(1) x C(1)] that(1) C(2)
      have "Num (id' (db ! k)) \<noteq> i" by auto
      from row_after_other[OF assms(1) x this that(2,1)] show ?thesis
        unfolding st using assms(2) by simp
    qed
    then show ?thesis
      using assms(2) F by (simp add: st row_after_more)
  qed
qed

theorem put_client_frame_witness:
  "distinct (map id' (board @ [client_E])) \<and>
   (4::nat) < length (board @ [client_E]) \<and>
   find (\<lambda>x. Num (id' x) = Num 1) (board @ [client_E]) = Some client_A \<and>
   length (store (put_client (Num 1) (Some ''in-progress'') (Some (Num 1)) (board @ [client_E]))) = 5 \<and>
   store (put_client (Num 1) (Some ''in-progress'') (Some (Num 1)) (board @ [client_E])) ! 4 = client_E"
proof -
  have D: "distinct (map id' (board @ [client_E]))"
    by (simp add: board_def client_A_def client_B_def client_C_def client_D_def client_E_def)
  have K: "(4::nat) < length (board @ [client_E])"
    by (simp add: board_def)
  have F: "find (\<lambda>x. Num (id' x) = Num 1) (board @ [client_E]) = Some client_A"
    by (simp add: board_def client_A_def)
  have E: "(board @ [client_E]) ! 4 = client_E"
    by (simp add: board_def)
  have S: "status client_E \<noteq> status client_A" "status client_E \<noteq> ''in-progress''"
    by (simp_all add: client_A_def client_E_def)
  note main = put_client_frame[OF D K, of "Num 1" "Some ''in-progress''" "Some (Num 1)"]
  have 1: "length (store (put_client (Num 1) (Some ''in-progress'') (Some (Num 1)) (board @ [client_E]))) = 5"
    using main[THEN conjunct1] by (simp add: board_def)
  have 2: "store (put_client (Num 1) (Some ''in-progress'') (Some (Num 1)) (board @ [client_E])) ! 4 = client_E"
    using main[THEN conjunct2, THEN conjunct2, THEN conjunct2, THEN conjunct2] F S
    by (simp add: E)
  from D K F 1 2 show ?thesis by (intro conjI)
qed

end
